theory Spec2Isabelle
  imports Complex_Main "HOL-Library.Product_Lexorder" "HOL-Library.List_Lexorder"
    "HOL-Library.Char_ord" "HOL-Library.Multiset"
begin

section \<open>Interval algebra (Family.py: overlap, \_merge\_ranges)\<close>

text \<open>
  A Python \<open>range(start, stop)\<close> with step 1: the half-open interval of the integers
  \<open>start \<le> i < stop\<close>. The object keeps both attributes also when it is empty.
\<close>

datatype py_range = Rng (start: int) (stop: int)

text \<open>\<open>len(r)\<close>: the number of integers of the range, 0 when \<open>stop \<le> start\<close>.\<close>

definition len_range :: "py_range \<Rightarrow> nat" where
  "len_range r = (if start r < stop r then nat (stop r - start r) else 0)"

text \<open>The integers a range covers.\<close>

definition points :: "py_range \<Rightarrow> int set" where
  "points r = {start r ..< stop r}"

definition covered :: "py_range list \<Rightarrow> int set" where
  "covered rs = \<Union> (points ` set rs)"

text \<open>
  \<open>overlap(start_1, end_1, start_2, end_2)\<close>: inclusive coordinates in, half-open range out.
\<close>

definition overlap :: "int \<Rightarrow> int \<Rightarrow> int \<Rightarrow> int \<Rightarrow> py_range" where
  "overlap start_1 end_1 start_2 end_2 = Rng (max start_1 start_2) (min end_1 end_2 + 1)"

text \<open>
  One iteration of the loop of \<open>_merge_ranges\<close>: \<open>u\<close> is the output list built so far,
  \<open>r\<close> the next range in sorted order. \<open>u[-1]\<close> is \<open>last u\<close>, \<open>u.pop()\<close> leaves \<open>butlast u\<close>.
\<close>

definition merge_step :: "py_range list \<Rightarrow> py_range \<Rightarrow> py_range list" where
  "merge_step u r =
     (if length u = 0 then u @ [r]
      else let r1 = last u; r2 = r in
        if len_range (overlap (start r1) (stop r1 - 1) (start r2) (stop r2 - 1)) \<noteq> 0
           \<or> stop r1 = start r2
        then butlast u @ [Rng (min (start r1) (start r2)) (max (stop r1) (stop r2))]
        else u @ [r])"

text \<open>
  \<open>_merge_ranges(ranges)\<close>: the ranges are sorted by the key \<open>(r.start, r.stop)\<close>
  (Python's \<open>sorted\<close> is stable, as \<open>sort_key\<close> is) and folded from the left.
\<close>

definition merge_ranges :: "py_range list \<Rightarrow> py_range list" where
  "merge_ranges ranges = foldl merge_step [] (sort_key (\<lambda>r. (start r, stop r)) ranges)"

text \<open>
  A Python \<open>set\<close> of ranges handed to \<open>_merge_ranges\<close>. The iteration order of a set is
  unspecified; the model enumerates it in key order. \<open>_merge_ranges\<close> sorts what it is given
  by a key that determines the range, so the order of enumeration cannot be observed
  (lemma \<open>merge_ranges_mset\<close> below).
\<close>

definition iter_set :: "py_range set \<Rightarrow> py_range list" where
  "iter_set S = map (\<lambda>(a, b). Rng a b) (sorted_list_of_set ((\<lambda>r. (start r, stop r)) ` S))"

text \<open>Properties of a list of ranges used to state what \<open>_merge_ranges\<close> returns.\<close>

definition separated :: "py_range list \<Rightarrow> bool" where
  "separated u = sorted_wrt (\<lambda>a b. stop a < start b) u"

definition nonempty_ranges :: "py_range list \<Rightarrow> bool" where
  "nonempty_ranges rs = list_all (\<lambda>r. start r < stop r) rs"

section \<open>Errors and true division\<close>

datatype py_error = ZeroDivisionError | TypeError | KeyError | RuntimeError | AssertionError
  | AttributeError

text \<open>
  \<open>a / b\<close> on two lengths: Python's true division raises on a zero divisor. The quotient
  is kept exact (a rational); the float Python returns is its rounding.
\<close>

definition py_div :: "nat \<Rightarrow> nat \<Rightarrow> py_error + rat" where
  "py_div a b = (if b = 0 then Inl ZeroDivisionError else Inr (of_nat a / of_nat b))"

text \<open>The decorator \<open>_zero_on_divide_by_zero\<close>: a ZeroDivisionError becomes the result 0.\<close>

definition zero_on_divide_by_zero :: "py_error + rat \<Rightarrow> py_error + rat" where
  "zero_on_divide_by_zero r = (case r of Inl ZeroDivisionError \<Rightarrow> Inr 0 | _ \<Rightarrow> r)"

text \<open>\<open>functools.reduce(f, xs)\<close> without an initial value: a TypeError on an empty iterable.\<close>

definition reduce :: "('a \<Rightarrow> 'a \<Rightarrow> 'a) \<Rightarrow> 'a list \<Rightarrow> py_error + 'a" where
  "reduce f xs = (case xs of [] \<Rightarrow> Inl TypeError | x # rest \<Rightarrow> Inr (foldl f x rest))"

text \<open>The slice \<open>xs[:n]\<close>; a negative \<open>n\<close> counts from the end.\<close>

definition py_take :: "int \<Rightarrow> 'a list \<Rightarrow> 'a list" where
  "py_take n xs = (if 0 \<le> n then take (nat n) xs else take (nat (int (length xs) + n)) xs)"

section \<open>Similarity primitives (relationships/jaccard.py, relationships/minhash.py)\<close>

text \<open>The arguments are iterables (lists here); \<open>set(s)\<close> is \<open>set s\<close>.\<close>

definition jaccard :: "'a list \<Rightarrow> 'a list \<Rightarrow> py_error + rat" where
  "jaccard s t = zero_on_divide_by_zero
     (let s' = set s; t' = set t in py_div (card (s' \<inter> t')) (card (s' \<union> t')))"

definition jaccard_containment :: "'a list \<Rightarrow> 'a list \<Rightarrow> py_error + rat" where
  "jaccard_containment s t = zero_on_divide_by_zero
     (let s' = set s; t' = set t in py_div (card (s' \<inter> t')) (card s'))"

text \<open>
  The formula the specification gives for the containment, \<open>|s \<inter> t| / |t|\<close>, with 0 on a
  zero denominator. Written from the specification's words, for comparison with the code.
\<close>

definition containment_spec :: "'a set \<Rightarrow> 'a set \<Rightarrow> rat" where
  "containment_spec s t = (if card t = 0 then 0 else of_nat (card (s \<inter> t)) / of_nat (card t))"

text \<open>
  \<open>signature(s, n, hash_function)\<close>: the pairs \<open>(hash, element)\<close> are sorted as tuples
  (by hash, ties by element) and the first \<open>n\<close> kept.
\<close>

definition signature :: "'a::linorder list \<Rightarrow> int \<Rightarrow> ('a \<Rightarrow> int) \<Rightarrow> (int \<times> 'a) set" where
  "signature s n hash_function = set (py_take n (sort (map (\<lambda>e. (hash_function e, e)) s)))"

definition set_hashes :: "'a list \<Rightarrow> ('a \<Rightarrow> int) \<Rightarrow> (int \<times> 'a) set" where
  "set_hashes s hash_function = set (map (\<lambda>e. (hash_function e, e)) s)"

text \<open>
  \<open>union_signature(*sets, n)\<close>. \<open>sorted\<close> of a (finite) set is \<open>sorted_list_of_set\<close>.
\<close>

definition union_signature :: "('a::linorder) set list \<Rightarrow> int \<Rightarrow> py_error + 'a set" where
  "union_signature sets n =
     (if length sets = 2 then Inr (set (py_take n (sorted_list_of_set (sets ! 0 \<union> sets ! 1))))
      else case reduce (\<union>) sets of
             Inl e \<Rightarrow> Inl e
           | Inr u \<Rightarrow> Inr (set (py_take n (sorted_list_of_set u))))"

definition intersection_signature :: "'a set list \<Rightarrow> py_error + 'a set" where
  "intersection_signature sets = reduce (\<inter>) sets"

definition minhash :: "('a::linorder) set \<Rightarrow> 'a set \<Rightarrow> int \<Rightarrow> py_error + rat" where
  "minhash s t n = zero_on_divide_by_zero
     (case union_signature [s, t] n of
        Inl e \<Rightarrow> Inl e
      | Inr X \<Rightarrow>
          (case intersection_signature [X, s, t] of
             Inl e \<Rightarrow> Inl e
           | Inr Y \<Rightarrow> py_div (card Y) (card X)))"

definition minhash_containment :: "'a set \<Rightarrow> 'a set \<Rightarrow> py_error + rat" where
  "minhash_containment s t = zero_on_divide_by_zero (py_div (card (s \<inter> t)) (card s))"

section \<open>Family (Family.py) and the family-level signature repository (relationships/pfam.py)\<close>

text \<open>
  The attributes of a \<open>Family\<close> object. \<open>_regions\<close> is a dictionary from protein accession
  to the list of its \<open>(start, end)\<close> regions. The two memo dictionaries are keyed by the
  repository object; \<open>Hashes\<close> defines neither \<open>__eq__\<close> nor \<open>__hash__\<close>, so the key is
  the object's identity (\<open>repo_ident\<close> below).
\<close>

record family =
  regions :: "string \<rightharpoonup> (int \<times> int) list"
  signatures :: "nat \<rightharpoonup> (int \<times> string) set"
  fhashes :: "nat \<rightharpoonup> (int \<times> string) set"
  finalised :: bool

text \<open>
  A \<open>Hashes\<close> object: its identity, the signature length \<open>n\<close> and the catalog dictionary
  from entry to signature.
\<close>

record hashes_repo =
  repo_ident :: nat
  repo_n :: int
  repo_hashes :: "(string \<times> (int \<times> string) set) list"

definition Family_init :: family where
  "Family_init = \<lparr>regions = Map.empty, signatures = Map.empty, fhashes = Map.empty,
     finalised = False\<rparr>"

text \<open>\<open>add_region\<close>: \<open>_regions\<close> is a \<open>defaultdict(list)\<close>, a missing key starts from \<open>[]\<close>.\<close>

definition add_region :: "family \<Rightarrow> string \<Rightarrow> int \<Rightarrow> int \<Rightarrow> py_error + family" where
  "add_region self acc region_start region_end =
     (if \<not> finalised self
      then Inr (self\<lparr>regions := (regions self)
                        (acc \<mapsto> (case regions self acc of None \<Rightarrow> [] | Some l \<Rightarrow> l) @ [(region_start, region_end)]),
                    signatures := Map.empty\<rparr>)
      else Inl RuntimeError)"

definition finalise :: "family \<Rightarrow> family" where
  "finalise self = self\<lparr>finalised := True\<rparr>"

text \<open>\<open>proteins()\<close>: the keys of \<open>_regions\<close>; iterated, they are listed in key order here.\<close>

definition proteins :: "family \<Rightarrow> string set" where
  "proteins self = dom (regions self)"

definition proteins_list :: "family \<Rightarrow> string list" where
  "proteins_list self = sorted_list_of_set (proteins self)"

text \<open>
  \<open>Hashes.signature\<close> and \<open>Hashes.full_hash\<close>. The hash function is \<open>_crc32_hash\<close>
  (\<open>binascii.crc32\<close> of the element's text), a parameter here.
\<close>

definition Hashes_signature :: "(string \<Rightarrow> int) \<Rightarrow> hashes_repo \<Rightarrow> family \<Rightarrow> (int \<times> string) set" where
  "Hashes_signature crc32_hash hashes fam = signature (proteins_list fam) (repo_n hashes) crc32_hash"

definition Hashes_full_hash :: "(string \<Rightarrow> int) \<Rightarrow> hashes_repo \<Rightarrow> family \<Rightarrow> (int \<times> string) set" where
  "Hashes_full_hash crc32_hash hashes fam = set_hashes (proteins_list fam) crc32_hash"

text \<open>
  \<open>Family.signature\<close> and \<open>Family.full_hash\<close>: the memoised value when the repository is
  a key of the memo dictionary (the \<open>try\<close>), otherwise computed and stored (the
  \<open>except KeyError\<close>). The family is returned with its memo updated.
\<close>

definition Family_signature ::
  "(string \<Rightarrow> int) \<Rightarrow> family \<Rightarrow> hashes_repo \<Rightarrow> (int \<times> string) set \<times> family" where
  "Family_signature crc32_hash self hashes =
     (case signatures self (repo_ident hashes) of
        Some sig \<Rightarrow> (sig, self)
      | None \<Rightarrow>
          (let sig = Hashes_signature crc32_hash hashes self
           in (sig, self\<lparr>signatures := (signatures self)(repo_ident hashes \<mapsto> sig)\<rparr>)))"

definition Family_full_hash ::
  "(string \<Rightarrow> int) \<Rightarrow> family \<Rightarrow> hashes_repo \<Rightarrow> (int \<times> string) set \<times> family" where
  "Family_full_hash crc32_hash self hashes =
     (case fhashes self (repo_ident hashes) of
        Some fhash \<Rightarrow> (fhash, self)
      | None \<Rightarrow>
          (let fhash = Hashes_full_hash crc32_hash hashes self
           in (fhash, self\<lparr>fhashes := (fhashes self)(repo_ident hashes \<mapsto> fhash)\<rparr>)))"

text \<open>\<open>Family.jaccard_index\<close> and \<open>Family.jaccard_containment\<close>, over the proteins.\<close>

definition Family_jaccard_index :: "family \<Rightarrow> family \<Rightarrow> py_error + rat" where
  "Family_jaccard_index self other = jaccard (proteins_list self) (proteins_list other)"

definition Family_jaccard_containment :: "family \<Rightarrow> family \<Rightarrow> py_error + rat" where
  "Family_jaccard_containment self other =
     jaccard_containment (proteins_list self) (proteins_list other)"

text \<open>
  Python compares ranges as sequences: two ranges are equal when both are empty, whatever
  their bounds, or when they have the same bounds. A \<open>set\<close> of ranges keeps the first of
  several equal ranges added to it and ignores the later ones.
\<close>

definition range_eq :: "py_range \<Rightarrow> py_range \<Rightarrow> bool" where
  "range_eq r1 r2 = ((len_range r1 = 0 \<and> len_range r2 = 0) \<or> r1 = r2)"

definition set_add_range :: "py_range list \<Rightarrow> py_range \<Rightarrow> py_range list" where
  "set_add_range found r = (if list_ex (\<lambda>x. range_eq x r) found then found else found @ [r])"

text \<open>
  The set comprehension \<open>{range(s, e + 1) for s, e in ts}\<close>, where \<open>ts\<close> lists the tuples
  in the order the iteration yields them. The ranges kept are listed in the order they
  were added; \<open>_merge_ranges\<close> sorts them by a key that tells them apart, so the order in
  which the resulting set is iterated is not observed.
\<close>

definition range_set_of :: "(int \<times> int) list \<Rightarrow> py_range list" where
  "range_set_of ts = foldl set_add_range [] (map (\<lambda>(s, e). Rng s (e + 1)) ts)"

text \<open>
  \<open>r._regions.get(protein)\<close> followed by \<open>set(x) if x is not None else set()\<close>: the
  regions of one family on a protein, as a set of tuples.
\<close>

definition region_tuples :: "family \<Rightarrow> string \<Rightarrow> (int \<times> int) set" where
  "region_tuples r protein = (case regions r protein of None \<Rightarrow> {} | Some x \<Rightarrow> set x)"

text \<open>
  The order in which a \<open>set\<close> is iterated is not fixed by its elements: it is the order
  of the slots of a hash table and depends on how the set was built. The iteration of the
  united set of tuples is therefore a parameter of \<open>Family.union\<close>
  (\<open>iter_tuples\<close>, from the set to the list of its elements in iteration order), and
  calls that unite the families in different orders may each see another one.
  \<open>set_iteration\<close> says that a function lists every finite set without repetition.
\<close>

definition set_iteration :: "('a set \<Rightarrow> 'a list) \<Rightarrow> bool" where
  "set_iteration iter_tuples =
     (\<forall>S. finite S \<longrightarrow> set (iter_tuples S) = S \<and> distinct (iter_tuples S))"

text \<open>
  \<open>Family.union(*others)\<close>. \<open>families\<close> is \<open>[self] + list(others)\<close>, never empty, so both
  \<open>reduce(operator.or_, ...)\<close> fold from the set of \<open>self\<close> over the others in argument
  order. For each protein of any of the families, the regions of all families are united
  as a set of tuples, the set of ranges \<open>range(s, e + 1)\<close> is built by iterating that set,
  and the ranges are merged.
\<close>

definition Family_union ::
  "((int \<times> int) set \<Rightarrow> (int \<times> int) list) \<Rightarrow> family \<Rightarrow> family list
   \<Rightarrow> (string \<rightharpoonup> py_range list)" where
  "Family_union iter_tuples self others =
     (let all_proteins = foldl (\<union>) (proteins self) (map proteins others)
      in (\<lambda>protein.
            if protein \<in> all_proteins
            then (let rs = foldl (\<union>) (region_tuples self protein)
                             (map (\<lambda>r. region_tuples r protein) others);
                      rs = range_set_of (iter_tuples rs)
                  in Some (merge_ranges rs))
            else None))"

text \<open>
  The contents of the united set of tuples, whatever the order of the fold (used to state
  lemmas only).
\<close>

definition united_tuples :: "family list \<Rightarrow> string \<Rightarrow> (int \<times> int) set" where
  "united_tuples families p = (\<Union>r\<in>set families. region_tuples r p)"

text \<open>The invariant of a coordinate range in the data model: \<open>start \<le> end\<close>.\<close>

definition valid_family :: "family \<Rightarrow> bool" where
  "valid_family f = (\<forall>p rs. regions f p = Some rs \<longrightarrow> list_all (\<lambda>(s, e). s \<le> e) rs)"

text \<open>
  \<open>_dict_slice(d, s)\<close>: the items whose key is in \<open>s\<close>, sorted as tuples. The keys of a
  dictionary are distinct, so the tuples are sorted by key.
\<close>

definition dict_slice :: "(string \<rightharpoonup> 'v) \<Rightarrow> string set \<Rightarrow> (string \<times> 'v) list" where
  "dict_slice d s = map (\<lambda>k. (k, the (d k))) (sorted_list_of_set {k \<in> dom d. k \<in> s})"

text \<open>
  The two nested loops of \<open>Family.overlap\<close> over the sorted regions of one protein. The
  inner loop leaves (\<open>break\<close>) at the first region of the second family that starts
  past the end of the current region of the first. A non-empty overlap is added to the
  set of the protein.
\<close>

fun overlap_inner :: "int \<Rightarrow> int \<Rightarrow> (int \<times> int) list \<Rightarrow> py_range set \<Rightarrow> py_range set" where
  "overlap_inner s1 e1 [] found = found"
| "overlap_inner s1 e1 ((s2, e2) # rest) found =
     (if s2 > e1 then found
      else let ov = overlap s1 e1 s2 e2
           in overlap_inner s1 e1 rest (if len_range ov \<noteq> 0 then insert ov found else found))"

fun overlap_outer :: "(int \<times> int) list \<Rightarrow> (int \<times> int) list \<Rightarrow> py_range set \<Rightarrow> py_range set" where
  "overlap_outer [] sorted_r2 found = found"
| "overlap_outer ((s1, e1) # rest) sorted_r2 found =
     overlap_outer rest sorted_r2 (overlap_inner s1 e1 sorted_r2 found)"

text \<open>
  The loop over the zipped dictionary slices. \<open>overlaps\<close> is a \<open>defaultdict(set)\<close>: each
  protein is met once, so \<open>overlaps[acc1]\<close> starts from the empty set, and the entry is
  replaced by the merged list also when nothing was added.
\<close>

fun overlap_proteins ::
  "((string \<times> (int \<times> int) list) \<times> (string \<times> (int \<times> int) list)) list
   \<Rightarrow> (string \<rightharpoonup> py_range list) \<Rightarrow> py_error + (string \<rightharpoonup> py_range list)" where
  "overlap_proteins [] overlaps = Inr overlaps"
| "overlap_proteins (((acc1, r1), (acc2, r2)) # rest) overlaps =
     (if acc1 \<noteq> acc2 then Inl AssertionError
      else let sorted_r1 = sort r1; sorted_r2 = sort r2;
               found = overlap_outer sorted_r1 sorted_r2 {}
           in overlap_proteins rest (overlaps(acc1 \<mapsto> merge_ranges (iter_set found))))"

definition Family_overlap :: "family \<Rightarrow> family \<Rightarrow> py_error + (string \<rightharpoonup> py_range list)" where
  "Family_overlap self other =
     (let (f1, f2) = (if card (proteins self) < card (proteins other)
                      then (self, other) else (other, self));
          intersection = proteins f1 \<inter> proteins f2
      in overlap_proteins
           (zip (dict_slice (regions f1) intersection) (dict_slice (regions f2) intersection))
           Map.empty)"

text \<open>
  What the loops of \<open>Family.overlap\<close> are shown to compute: the non-empty overlaps of
  every pair of regions, one region from each family (\<open>pair_overlaps\<close>), merged for each
  protein of both families (\<open>protein_overlap\<close>, \<open>overlap_of\<close>). These three are used to
  state lemmas only.
\<close>

definition pair_overlaps :: "(int \<times> int) set \<Rightarrow> (int \<times> int) set \<Rightarrow> py_range set" where
  "pair_overlaps R1 R2 =
     {ov. \<exists>s1 e1 s2 e2. (s1, e1) \<in> R1 \<and> (s2, e2) \<in> R2 \<and> ov = overlap s1 e1 s2 e2
                         \<and> len_range ov \<noteq> 0}"

definition protein_overlap :: "(int \<times> int) list \<Rightarrow> (int \<times> int) list \<Rightarrow> py_range list" where
  "protein_overlap r1 r2 = merge_ranges (iter_set (pair_overlaps (set r1) (set r2)))"

definition overlap_of :: "family \<Rightarrow> family \<Rightarrow> (string \<rightharpoonup> py_range list)" where
  "overlap_of f1 f2 =
     (\<lambda>p. if p \<in> set (sorted_list_of_set (proteins f1 \<inter> proteins f2))
          then Some (protein_overlap (the (regions f1 p)) (the (regions f2 p))) else None)"

text \<open>The families the fixtures of test\_family.py build with \<open>add_region\<close>.\<close>

definition test_f1 :: family where
  "test_f1 = Family_init\<lparr>regions := [''a1'' \<mapsto> [(10, 20)], ''a2'' \<mapsto> [(10, 20)]]\<rparr>"

definition test_f2 :: family where
  "test_f2 = Family_init\<lparr>regions := [''a1'' \<mapsto> [(15, 20), (30, 40)]]\<rparr>"

definition test_f3 :: family where
  "test_f3 = Family_init\<lparr>regions := [''a1'' \<mapsto> [(21, 50), (5, 9)]]\<rparr>"

text \<open>
  Three families with one region each on the same protein, as
  \<open>add_region(''p'', 0, -1)\<close>, \<open>add_region(''p'', 7, 6)\<close> and \<open>add_region(''p'', 0, 3)\<close>
  build them: the first two regions end before they start and give the empty ranges
  \<open>range(0, 0)\<close> and \<open>range(7, 7)\<close>.
\<close>

definition empty_f1 :: family where
  "empty_f1 = Family_init\<lparr>regions := [''p'' \<mapsto> [(0, - 1)]]\<rparr>"

definition empty_f2 :: family where
  "empty_f2 = Family_init\<lparr>regions := [''p'' \<mapsto> [(7, 6)]]\<rparr>"

definition short_f3 :: family where
  "short_f3 = Family_init\<lparr>regions := [''p'' \<mapsto> [(0, 3)]]\<rparr>"

text \<open>
  Two iterations of sets of tuples. They differ on the set of the three regions above:
  CPython 3.11 iterates it as \<open>(7, 6), (0, -1), (0, 3)\<close> when it was united from the
  first family on, and as \<open>(0, 3), (0, -1), (7, 6)\<close> when united from the third on.
\<close>

definition iter_from_first :: "(int \<times> int) set \<Rightarrow> (int \<times> int) list" where
  "iter_from_first S =
     (if S = {(0, - 1), (7, 6), (0, 3)} then [(7, 6), (0, - 1), (0, 3)]
      else sorted_list_of_set S)"

definition iter_from_third :: "(int \<times> int) set \<Rightarrow> (int \<times> int) list" where
  "iter_from_third S =
     (if S = {(0, - 1), (7, 6), (0, 3)} then [(0, 3), (0, - 1), (7, 6)]
      else sorted_list_of_set S)"

section \<open>The sifter pipeline (sifter.py)\<close>

text \<open>The keys of a packet.\<close>

abbreviation SIFTS :: string where "SIFTS \<equiv> ''sifts''"
abbreviation SEARCH :: string where "SEARCH \<equiv> ''search''"
abbreviation ID :: string where "ID \<equiv> ''id''"
abbreviation FAMILY_HASH_SCORES :: string where "FAMILY_HASH_SCORES \<equiv> ''family_hash_scores''"
abbreviation NORMALISED_FAMILY_HASH_SCORES :: string where
  "NORMALISED_FAMILY_HASH_SCORES \<equiv> ''normalised_family_hash_scores''"
abbreviation CLANS :: string where "CLANS \<equiv> ''clans''"
abbreviation ABSOLUTE_SIZES :: string where "ABSOLUTE_SIZES \<equiv> ''absolute_sizes''"
abbreviation RELATIVE_SIZES :: string where "RELATIVE_SIZES \<equiv> ''relative_sizes''"
abbreviation SEARCH_SIZE :: string where "SEARCH_SIZE \<equiv> ''search_size''"

text \<open>
  A packet is a dictionary from these keys to Python objects. The audit trail under
  \<open>SIFTS\<close> is a list object that stages append to, so the packet holds a reference to it
  (an address of the store) and the store holds the list: two dictionaries with the same
  reference share the list. The other values are never changed in place by a stage
  (a stage binds a key of its own copy to a new dictionary), so they are kept as plain
  values. A dictionary of scores, clans or sizes is an association list in insertion
  order. Sifters in the audit trail are named by a string.
\<close>

datatype pyval =
    VFamily family
  | VId string
  | VListRef nat
  | VScores "(string \<times> rat) list"
  | VClans "(string \<times> string option) list"
  | VSizes "(string \<times> int) list"
  | VNum rat

type_synonym packet = "string \<rightharpoonup> pyval"

type_synonym store = "string list list"

text \<open>A call \<open>self.sinks[sink].sift(data)\<close> made by \<open>_distribute_results\<close>: the sink's name
  and the packet handed over.\<close>

type_synonym delivery = "string \<times> packet"

text \<open>\<open>package(search, id_)\<close> creates the packet with a new, empty audit-trail list.\<close>

definition package :: "family \<Rightarrow> string \<Rightarrow> store \<Rightarrow> packet \<times> store" where
  "package search ident st =
     (Map.empty(SEARCH \<mapsto> VFamily search, ID \<mapsto> VId ident, SIFTS \<mapsto> VListRef (length st)),
      st @ [[]])"

text \<open>The audit trail a packet shows to whoever holds it: the list its reference points to.\<close>

definition audit_trail :: "packet \<Rightarrow> store \<Rightarrow> string list option" where
  "audit_trail data st =
     (case data SIFTS of
        Some (VListRef a) \<Rightarrow> (if a < length st then Some (st ! a) else None)
      | _ \<Rightarrow> None)"

text \<open>
  \<open>Sifter.sift\<close>, the base method every stage calls first. \<open>copy.copy(data)\<close> is a shallow
  copy: a new dictionary with the same values, among them the same reference under
  \<open>SIFTS\<close>. The \<open>append\<close> changes the list that reference points to. A packet without
  the key raises \<open>KeyError\<close>; a reference always points to an allocated list, so the
  branch for an address outside the store is never taken from a packet made by \<open>package\<close>.
\<close>

definition Sifter_sift :: "string \<Rightarrow> packet \<Rightarrow> store \<Rightarrow> py_error + (packet \<times> store)" where
  "Sifter_sift self data st =
     (let out_data = data in
      case out_data SIFTS of
        None \<Rightarrow> Inl KeyError
      | Some (VListRef a) \<Rightarrow>
          (if a < length st then Inr (out_data, st[a := st ! a @ [self]]) else Inl KeyError)
      | Some _ \<Rightarrow> Inl AttributeError)"

text \<open>
  \<open>HashSifter\<close>. The scoring method is injected (\<open>sift_method\<close>); it returns the dictionary
  of the scores of the query against every catalog entry.
\<close>

record 'h hash_sifter =
  hs_self :: string
  hs_hashes :: 'h
  hs_sift_method :: "family \<Rightarrow> 'h \<Rightarrow> (string \<times> rat) list"
  hs_low_threshold :: rat
  hs_high_threshold :: rat

definition HashSifter_sift ::
  "'h hash_sifter \<Rightarrow> packet \<Rightarrow> store \<Rightarrow> py_error + (delivery list \<times> store)" where
  "HashSifter_sift self data st =
     (case Sifter_sift (hs_self self) data st of
        Inl e \<Rightarrow> Inl e
      | Inr (out_data, st1) \<Rightarrow>
          (case data SEARCH of
             None \<Rightarrow> Inl KeyError
           | Some (VFamily search) \<Rightarrow>
               (let scores = hs_sift_method self search (hs_hashes self);
                    out_data = out_data(FAMILY_HASH_SCORES \<mapsto>
                                 VScores (filter (\<lambda>(f, s). s > 0) scores));
                    vals = map snd scores
                in case reduce (\<and>) (map (\<lambda>v. v \<le> hs_low_threshold self) vals) of
                     Inl e \<Rightarrow> Inl e
                   | Inr all_low \<Rightarrow>
                       if all_low then Inr ([(''low_sink'', out_data)], st1)
                       else (case reduce (\<or>) (map (\<lambda>v. v \<ge> hs_high_threshold self) vals) of
                               Inl e \<Rightarrow> Inl e
                             | Inr any_high \<Rightarrow>
                                 if any_high
                                    \<and> length (filter (\<lambda>v. v \<ge> hs_low_threshold self) vals) = 1
                                 then Inr ([(''high_sink'', out_data)], st1)
                                 else Inr ([(''other_sink'', out_data)], st1)))
           | Some _ \<Rightarrow> Inl AttributeError))"

text \<open>\<open>Terminator\<close>: stores the copy under the packet's identifier.\<close>

definition Terminator_sift ::
  "string \<Rightarrow> (string \<rightharpoonup> packet) \<Rightarrow> packet \<Rightarrow> store
   \<Rightarrow> py_error + ((string \<rightharpoonup> packet) \<times> store)" where
  "Terminator_sift self results data st =
     (case Sifter_sift self data st of
        Inl e \<Rightarrow> Inl e
      | Inr (out_data, st1) \<Rightarrow>
          (case data ID of
             Some (VId i) \<Rightarrow> Inr (results(i \<mapsto> out_data), st1)
           | _ \<Rightarrow> Inl KeyError))"

text \<open>
  \<open>ClanSifter\<close>. \<open>Clans().clan_for_family\<close> is the external clan lookup (a parameter):
  the clan of a family, or \<open>None\<close>. The method has no \<open>return\<close> after its first
  \<open>_distribute_results\<close>, so the deliveries are listed in the order they are made.
  \<open>None not in clans\<close> is a test on the keys of the dictionary, the family accessions.
\<close>

record clan_sifter =
  cs_self :: string
  cs_threshold :: rat

definition ClanSifter_sift ::
  "(string \<Rightarrow> string option) \<Rightarrow> clan_sifter \<Rightarrow> packet \<Rightarrow> store
   \<Rightarrow> py_error + (delivery list \<times> store)" where
  "ClanSifter_sift clan_for_family self data st =
     (case Sifter_sift (cs_self self) data st of
        Inl e \<Rightarrow> Inl e
      | Inr (out_data, st1) \<Rightarrow>
          (case data FAMILY_HASH_SCORES of
             None \<Rightarrow> Inl KeyError
           | Some (VScores fhs) \<Rightarrow>
               (let threshold_families = filter (\<lambda>(f, s). s > cs_threshold self) fhs;
                    first = (if length threshold_families \<le> 1
                             then [(''same_sink'', out_data)] else []);
                    clans = map (\<lambda>(f, s). (f, clan_for_family f)) threshold_families;
                    out_data = out_data(CLANS \<mapsto> VClans clans)
                in if card (set (map snd clans)) = 1
                      \<and> None \<notin> set (map (\<lambda>(f, c). Some f) clans)
                   then Inr (first @ [(''same_sink'', out_data)], st1)
                   else Inr (first @ [(''different_sink'', out_data)], st1))
           | Some _ \<Rightarrow> Inl AttributeError))"

text \<open>
  \<open>SizeSifter\<close>. \<open>self.sizes.sizes\<close> is the dictionary of catalog sizes and
  \<open>self.sizes.size_method\<close> the size of a family (\<open>proteins_covered\<close> or
  \<open>residues_covered\<close>). A dictionary comprehension that raises is \<open>traverse_err\<close>.
\<close>

fun traverse_err :: "('a \<Rightarrow> py_error + 'b) \<Rightarrow> 'a list \<Rightarrow> py_error + 'b list" where
  "traverse_err f [] = Inr []"
| "traverse_err f (x # xs) =
     (case f x of
        Inl e \<Rightarrow> Inl e
      | Inr y \<Rightarrow> (case traverse_err f xs of Inl e \<Rightarrow> Inl e | Inr ys \<Rightarrow> Inr (y # ys)))"

record size_sifter =
  ss_self :: string
  ss_sizes :: "(string \<times> int) list"
  ss_size_method :: "family \<Rightarrow> int"
  ss_abs_threshold :: "rat option"
  ss_rel_threshold :: "rat option"

definition SizeSifter_sift ::
  "size_sifter \<Rightarrow> packet \<Rightarrow> store \<Rightarrow> py_error + (delivery list \<times> store)" where
  "SizeSifter_sift self data st =
     (case Sifter_sift (ss_self self) data st of
        Inl e \<Rightarrow> Inl e
      | Inr (out_data, st1) \<Rightarrow>
     (case data FAMILY_HASH_SCORES of
        None \<Rightarrow> Inl KeyError
      | Some (VScores fhs) \<Rightarrow>
     (case traverse_err (\<lambda>(f, _). case map_of (ss_sizes self) f of
                                     None \<Rightarrow> Inl KeyError | Some s \<Rightarrow> Inr (f, s)) fhs of
        Inl e \<Rightarrow> Inl e
      | Inr abs_sizes \<Rightarrow>
     (case data SEARCH of
        None \<Rightarrow> Inl KeyError
      | Some (VFamily search) \<Rightarrow>
     (let search_size = ss_size_method self search in
      case traverse_err (\<lambda>(f, s). if s = 0 then Inl ZeroDivisionError
                                   else Inr (f, of_int search_size / of_int s)) abs_sizes of
        Inl e \<Rightarrow> Inl e
      | Inr rel_sizes \<Rightarrow>
     (case traverse_err (\<lambda>(f, s). case map_of (ss_sizes self) f of
                                     None \<Rightarrow> Inl KeyError
                                   | Some z \<Rightarrow> if search_size = 0 then Inl ZeroDivisionError
                                               else Inr (f, (s * of_int z) / of_int search_size))
             (filter (\<lambda>(f, s). s > 0) fhs) of
        Inl e \<Rightarrow> Inl e
      | Inr normalised_scores \<Rightarrow>
     (let out_data = out_data(ABSOLUTE_SIZES \<mapsto> VSizes abs_sizes,
                              SEARCH_SIZE \<mapsto> VNum (of_int search_size),
                              RELATIVE_SIZES \<mapsto> VScores rel_sizes,
                              NORMALISED_FAMILY_HASH_SCORES \<mapsto> VScores normalised_scores);
          bigger = True;
          bigger = (case ss_abs_threshold self of
                      None \<Rightarrow> bigger
                    | Some abs_threshold \<Rightarrow>
                        if length (filter (\<lambda>s. of_int s < abs_threshold) (map snd abs_sizes)) > 0
                        then (bigger \<or> False) else bigger);
          bigger = (case ss_rel_threshold self of
                      None \<Rightarrow> bigger
                    | Some rel_threshold \<Rightarrow>
                        if length (filter (\<lambda>r. r < rel_threshold) (map snd rel_sizes)) > 0
                        then (bigger \<or> False) else bigger)
      in if bigger then Inr ([(''bigger_sink'', out_data)], st1)
         else Inr ([(''smaller_sink'', out_data)], st1))))
      | Some _ \<Rightarrow> Inl AttributeError)
      )
      | Some _ \<Rightarrow> Inl AttributeError))"

section \<open>Properties of the interval algebra\<close>

lemma len_overlap_nonzero:
  "len_range (overlap a (b - 1) c (d - 1)) \<noteq> 0 \<longleftrightarrow> max a c < min b d"
  by (auto simp: len_range_def overlap_def)

lemma len_overlap_pos:
  "0 < len_range (overlap a (b - 1) c (d - 1)) \<longleftrightarrow> max a c < min b d"
  using len_overlap_nonzero[of a b c d] by simp

lemma merge_step_Nil: "merge_step [] r = [r]"
  by (simp add: merge_step_def)

lemma merge_step_snoc:
  "merge_step (us @ [r1]) r =
     (if max (start r1) (start r) < min (stop r1) (stop r) \<or> stop r1 = start r
      then us @ [Rng (min (start r1) (start r)) (max (stop r1) (stop r))]
      else us @ [r1, r])"
  by (simp add: merge_step_def len_overlap_pos Let_def del: max_less_iff_conj min_less_iff_conj)

lemma covered_append: "covered (xs @ ys) = covered xs \<union> covered ys"
  by (auto simp: covered_def)

lemma covered_single: "covered [r] = points r"
  by (simp add: covered_def)

lemma covered_Cons: "covered (r # rs) = points r \<union> covered rs"
  by (simp add: covered_def)

lemma covered_Nil: "covered [] = {}"
  by (simp add: covered_def)

lemma separated_snoc:
  "separated (us @ [r]) \<longleftrightarrow> separated us \<and> (\<forall>a\<in>set us. stop a < start r)"
  by (auto simp: separated_def sorted_wrt_append)

lemma merge_step_inv:
  assumes ne: "nonempty_ranges u" "start r < stop r"
    and sep: "separated u"
    and ord: "u \<noteq> [] \<Longrightarrow> start (last u) \<le> start r"
  shows "separated (merge_step u r) \<and> nonempty_ranges (merge_step u r)
         \<and> covered (merge_step u r) = covered u \<union> points r
         \<and> merge_step u r \<noteq> [] \<and> start (last (merge_step u r)) \<le> start r"
proof (cases u rule: rev_cases)
  case Nil
  then show ?thesis using ne
    by (simp add: merge_step_Nil separated_def nonempty_ranges_def covered_def)
next
  case (snoc us r1)
  have r1: "start r1 < stop r1" and us: "nonempty_ranges us"
    using ne snoc by (simp_all add: nonempty_ranges_def)
  have le: "start r1 \<le> start r" using ord snoc by simp
  have sus: "separated us" and bef: "\<forall>a\<in>set us. stop a < start r1"
    using sep snoc by (simp_all add: separated_snoc)
  show ?thesis
  proof (cases "max (start r1) (start r) < min (stop r1) (stop r) \<or> stop r1 = start r")
    case True
    then have touch: "start r \<le> stop r1" by auto
    have pts: "points (Rng (start r1) (max (stop r1) (stop r))) = points r1 \<union> points r"
      using le touch r1 ne(2) by (auto simp: points_def)
    have m: "merge_step u r = us @ [Rng (start r1) (max (stop r1) (stop r))]"
      using True le snoc by (simp add: merge_step_snoc min_def)
    show ?thesis
      unfolding m using sus bef us r1 le pts snoc
      by (auto simp: separated_snoc nonempty_ranges_def covered_append covered_single)
  next
    case False
    then have gap: "stop r1 < start r" using le r1 ne(2) by (auto simp: max_def min_def split: if_splits)
    have m: "merge_step u r = u @ [r]"
      using False snoc by (simp add: merge_step_snoc)
    have "\<forall>a\<in>set u. stop a < start r"
      using bef gap r1 snoc by auto
    then show ?thesis
      unfolding m using sep ne
      by (simp add: separated_snoc nonempty_ranges_def covered_append covered_single)
  qed
qed

lemma foldl_merge_inv:
  assumes "nonempty_ranges u" "nonempty_ranges rs" "separated u" "sorted (map start rs)"
    and "u \<noteq> [] \<Longrightarrow> \<forall>r\<in>set rs. start (last u) \<le> start r"
  shows "separated (foldl merge_step u rs) \<and> nonempty_ranges (foldl merge_step u rs)
         \<and> covered (foldl merge_step u rs) = covered u \<union> covered rs"
  using assms
proof (induction rs arbitrary: u)
  case Nil
  then show ?case by (simp add: covered_Nil)
next
  case (Cons r rs)
  have r: "start r < stop r" and rs: "nonempty_ranges rs"
    using Cons.prems(2) by (simp_all add: nonempty_ranges_def)
  have st: "separated (merge_step u r) \<and> nonempty_ranges (merge_step u r)
         \<and> covered (merge_step u r) = covered u \<union> points r
         \<and> merge_step u r \<noteq> [] \<and> start (last (merge_step u r)) \<le> start r"
    using merge_step_inv[OF Cons.prems(1) r Cons.prems(3)] Cons.prems(5) by simp
  have srt: "sorted (map start rs)" and ler: "\<forall>x\<in>set rs. start r \<le> start x"
    using Cons.prems(4) by simp_all
  have nxt: "\<forall>x\<in>set rs. start (last (merge_step u r)) \<le> start x"
    using st ler by force
  have "separated (foldl merge_step (merge_step u r) rs)
        \<and> nonempty_ranges (foldl merge_step (merge_step u r) rs)
        \<and> covered (foldl merge_step (merge_step u r) rs) = covered (merge_step u r) \<union> covered rs"
    using Cons.IH[of "merge_step u r"] st rs srt nxt by blast
  then show ?case using st by (auto simp: covered_Cons)
qed

lemma sorted_key_start:
  "sorted (map (\<lambda>r. (start r, stop r)) rs) \<Longrightarrow> sorted (map start rs)"
  by (induction rs) (auto simp: less_eq_prod_def)

lemma merge_ranges_inv:
  assumes "nonempty_ranges ranges"
  shows "separated (merge_ranges ranges) \<and> nonempty_ranges (merge_ranges ranges)
         \<and> covered (merge_ranges ranges) = covered ranges"
proof -
  let ?s = "sort_key (\<lambda>r. (start r, stop r)) ranges"
  have ne: "nonempty_ranges ?s" using assms by (simp add: nonempty_ranges_def list_all_iff)
  have srt: "sorted (map start ?s)" by (rule sorted_key_start) simp
  have cov: "covered ?s = covered ranges" by (simp add: covered_def)
  show ?thesis
    unfolding merge_ranges_def
    using foldl_merge_inv[of "[]" ?s] ne srt cov
    by (simp add: separated_def nonempty_ranges_def covered_Nil)
qed

lemma foldl_merge_separated_id:
  "separated (u @ rs) \<Longrightarrow> nonempty_ranges (u @ rs) \<Longrightarrow> foldl merge_step u rs = u @ rs"
proof (induction rs arbitrary: u)
  case Nil
  then show ?case by simp
next
  case (Cons r rs)
  have "merge_step u r = u @ [r]"
  proof (cases u rule: rev_cases)
    case Nil
    then show ?thesis by (simp add: merge_step_Nil)
  next
    case (snoc us r1)
    have "stop r1 < start r" using Cons.prems(1) snoc
      by (simp add: separated_def sorted_wrt_append)
    moreover have "start r1 < stop r1" "start r < stop r"
      using Cons.prems(2) snoc by (simp_all add: nonempty_ranges_def)
    ultimately show ?thesis using snoc by (simp add: merge_step_snoc)
  qed
  then show ?case using Cons.IH[of "u @ [r]"] Cons.prems by simp
qed

lemma separated_sorted_key:
  "separated rs \<Longrightarrow> nonempty_ranges rs \<Longrightarrow> sorted (map (\<lambda>r. (start r, stop r)) rs)"
  by (induction rs) (auto simp: separated_def nonempty_ranges_def less_eq_prod_def)

lemma merge_ranges_separated_id:
  assumes "separated rs" "nonempty_ranges rs"
  shows "merge_ranges rs = rs"
proof -
  have "sort_key (\<lambda>r. (start r, stop r)) rs = rs"
    using separated_sorted_key[OF assms] by (rule sort_key_id_if_sorted)
  then show ?thesis
    unfolding merge_ranges_def using foldl_merge_separated_id[of "[]" rs] assms by simp
qed

lemma separated_distinct_starts:
  "separated rs \<Longrightarrow> nonempty_ranges rs \<Longrightarrow> distinct (map start rs)"
  by (induction rs) (auto simp: separated_def nonempty_ranges_def)

lemma separated_pairwise:
  "separated rs \<Longrightarrow> a \<in> set rs \<Longrightarrow> b \<in> set rs \<Longrightarrow> a = b \<or> stop a < start b \<or> stop b < start a"
  by (induction rs) (auto simp: separated_def)

lemma separated_minimal:
  assumes sep: "separated rs" and ne: "nonempty_ranges rs" and cov: "covered ys = covered rs"
  shows "length rs \<le> length ys"
proof -
  have sub: "start ` set rs \<subseteq> start ` set ys"
  proof
    fix s assume "s \<in> start ` set rs"
    then obtain r where r: "r \<in> set rs" "start r = s" by auto
    have rne: "start r < stop r" using ne r(1) by (simp add: nonempty_ranges_def list_all_iff)
    then have "s \<in> covered rs" using r by (auto simp: covered_def points_def)
    then obtain y where y: "y \<in> set ys" "s \<in> points y" using cov by (auto simp: covered_def)
    have "s - 1 \<notin> covered rs"
    proof
      assume "s - 1 \<in> covered rs"
      then obtain b where b: "b \<in> set rs" "start b \<le> s - 1" "s - 1 < stop b"
        by (auto simp: covered_def points_def)
      have bne: "start b < stop b" using ne b(1) by (simp add: nonempty_ranges_def list_all_iff)
      from separated_pairwise[OF sep r(1) b(1)] show False
        using b r(2) rne bne by auto
    qed
    then have "s - 1 \<notin> points y" using y(1) cov by (auto simp: covered_def)
    then have "start y = s" using y(2) by (auto simp: points_def)
    then show "s \<in> start ` set ys" using y(1) by auto
  qed
  have "length rs = card (start ` set rs)"
    using separated_distinct_starts[OF sep ne] distinct_card[of "map start rs"] by simp
  also have "\<dots> \<le> card (start ` set ys)" using sub by (simp add: card_mono)
  also have "\<dots> \<le> length ys" using card_length[of "map start ys"] by simp
  finally show ?thesis .
qed

lemma merge_ranges_mset:
  assumes "mset xs = mset ys"
  shows "merge_ranges xs = merge_ranges ys"
proof -
  have "inj_on (\<lambda>r. (start r, stop r)) (set xs)"
    by (auto simp: inj_on_def py_range.expand)
  then have "sort_key (\<lambda>r. (start r, stop r)) xs = sort_key (\<lambda>r. (start r, stop r)) ys"
    using assms by (rule sort_key_eq_sort_key[rotated])
  then show ?thesis by (simp add: merge_ranges_def)
qed

text \<open>
  C5 (as amended). For every finite collection of non-empty integer ranges
  (\<open>start < stop\<close>), \<open>_merge_ranges\<close> returns a list in which every range ends strictly
  before each later one starts (so the list is sorted, pairwise disjoint and
  non-adjacent) and is sorted by the key \<open>(start, stop)\<close>; the list covers the same
  points as the input; no list of ranges covering the same points is shorter; and
  merging the result again returns it unchanged.
\<close>

theorem merge_ranges_nonempty_minimal_idempotent:
  assumes "nonempty_ranges ranges"
  shows "separated (merge_ranges ranges)
       \<and> sorted (map (\<lambda>r. (start r, stop r)) (merge_ranges ranges))
       \<and> covered (merge_ranges ranges) = covered ranges
       \<and> (\<forall>ys. covered ys = covered ranges \<longrightarrow> length (merge_ranges ranges) \<le> length ys)
       \<and> merge_ranges (merge_ranges ranges) = merge_ranges ranges"
proof -
  have inv: "separated (merge_ranges ranges)" "nonempty_ranges (merge_ranges ranges)"
    "covered (merge_ranges ranges) = covered ranges"
    using merge_ranges_inv[OF assms] by simp_all
  have srt: "sorted (map (\<lambda>r. (start r, stop r)) (merge_ranges ranges))"
    using separated_sorted_key[OF inv(1) inv(2)] .
  have mini: "\<forall>ys. covered ys = covered ranges \<longrightarrow> length (merge_ranges ranges) \<le> length ys"
    using separated_minimal[OF inv(1) inv(2)] inv(3) by simp
  have idem: "merge_ranges (merge_ranges ranges) = merge_ranges ranges"
    using merge_ranges_separated_id[OF inv(1) inv(2)] .
  show ?thesis using inv(1) srt inv(3) mini idem by blast
qed

theorem merge_ranges_nonempty_witness:
  "nonempty_ranges [Rng 3 10, Rng 0 5, Rng 20 30, Rng 10 12]
   \<and> separated (merge_ranges [Rng 3 10, Rng 0 5, Rng 20 30, Rng 10 12])
   \<and> covered (merge_ranges [Rng 3 10, Rng 0 5, Rng 20 30, Rng 10 12])
       = covered [Rng 3 10, Rng 0 5, Rng 20 30, Rng 10 12]
   \<and> length (merge_ranges [Rng 3 10, Rng 0 5, Rng 20 30, Rng 10 12])
       \<le> length [Rng 3 10, Rng 0 5, Rng 20 30, Rng 10 12]
   \<and> merge_ranges (merge_ranges [Rng 3 10, Rng 0 5, Rng 20 30, Rng 10 12])
       = merge_ranges [Rng 3 10, Rng 0 5, Rng 20 30, Rng 10 12]"
proof -
  have h: "nonempty_ranges [Rng 3 10, Rng 0 5, Rng 20 30, Rng 10 12]"
    by (simp add: nonempty_ranges_def)
  show ?thesis
    using h merge_ranges_nonempty_minimal_idempotent[OF h] by blast
qed

text \<open>
  C5 as stated fails once a zero-length range is among the input: the empty range
  \<open>range(5, 5)\<close> is kept apart from \<open>range(0, 10)\<close>, then joined with the adjacent
  \<open>range(5, 8)\<close>. The result holds two overlapping ranges, and merging it again changes it.
  Two empty ranges are merged into one empty range, as the repository's test expects,
  where the empty list covers the same (no) points with fewer ranges.
\<close>

theorem merge_ranges_zero_length_counterexample:
  "merge_ranges [Rng 0 10, Rng 5 5, Rng 5 8] = [Rng 0 10, Rng 5 8]
   \<and> points (Rng 0 10) \<inter> points (Rng 5 8) \<noteq> {}
   \<and> \<not> separated (merge_ranges [Rng 0 10, Rng 5 5, Rng 5 8])
   \<and> merge_ranges (merge_ranges [Rng 0 10, Rng 5 5, Rng 5 8])
       \<noteq> merge_ranges [Rng 0 10, Rng 5 5, Rng 5 8]
   \<and> merge_ranges [Rng 0 0, Rng 0 0] = [Rng 0 0]
   \<and> covered [] = covered [Rng 0 0, Rng 0 0]
   \<and> \<not> length (merge_ranges [Rng 0 0, Rng 0 0]) \<le> length ([] :: py_range list)"
proof -
  have z: "merge_ranges [Rng 0 0, Rng 0 0] = [Rng 0 0]"
    by code_simp
  have c: "covered [] = covered [Rng 0 0, Rng 0 0]"
    by (simp add: covered_def points_def)
  have m: "merge_ranges [Rng 0 10, Rng 5 5, Rng 5 8] = [Rng 0 10, Rng 5 8]"
    by code_simp
  have mm: "merge_ranges [Rng 0 10, Rng 5 8] = [Rng 0 10]"
    by code_simp
  have p: "(5::int) \<in> points (Rng 0 10) \<inter> points (Rng 5 8)"
    by (simp add: points_def)
  show ?thesis
    unfolding m mm z using p c by (auto simp: separated_def)
qed

section \<open>Properties of the similarity primitives\<close>

lemma zero_on_divide_by_zero_py_div:
  "zero_on_divide_by_zero (py_div a b) = Inr (if b = 0 then 0 else of_nat a / of_nat b)"
  by (simp add: zero_on_divide_by_zero_def py_div_def)

text \<open>
  C1 (as amended). For all finite sets \<open>s\<close> and \<open>t\<close> (given as iterables),
  \<open>jaccard_containment(s, t)\<close> returns \<open>|s \<inter> t| / |s|\<close>: the divisor is the size of the
  first argument. It returns 0, not an error, when that divisor is zero.
\<close>

theorem jaccard_containment_divides_by_first:
  "jaccard_containment s t =
     Inr (if card (set s) = 0 then 0
          else of_nat (card (set s \<inter> set t)) / of_nat (card (set s)))"
  by (simp add: jaccard_containment_def Let_def zero_on_divide_by_zero_py_div)

theorem jaccard_containment_witness:
  "jaccard_containment [1, 2 :: int] [2] = Inr (1 / 2)
   \<and> jaccard_containment [2 :: int] [1, 2] = Inr 1
   \<and> jaccard_containment ([] :: int list) [1, 2] = Inr 0"
  using jaccard_containment_divides_by_first[of "[1, 2 :: int]" "[2]"]
    jaccard_containment_divides_by_first[of "[2 :: int]" "[1, 2]"]
    jaccard_containment_divides_by_first[of "[] :: int list" "[1, 2]"]
  by simp

text \<open>
  C1 as stated, with the divisor \<open>|t|\<close>, fails at \<open>s = {1, 2}\<close>, \<open>t = {2}\<close>: the code
  returns \<open>1/2\<close>, the stated formula gives 1.
\<close>

theorem jaccard_containment_spec_counterexample:
  "jaccard_containment [1, 2 :: int] [2] = Inr (1 / 2)
   \<and> containment_spec (set [1, 2 :: int]) (set [2]) = 1
   \<and> jaccard_containment [1, 2 :: int] [2] \<noteq> Inr (containment_spec (set [1, 2 :: int]) (set [2]))"
  by (simp add: jaccard_containment_def Let_def zero_on_divide_by_zero_py_div containment_spec_def)

lemma py_take_all: "int (length xs) \<le> n \<Longrightarrow> py_take n xs = xs"
  by (simp add: py_take_def)

lemma signature_full:
  assumes "distinct s" "int (card (set s)) \<le> n"
  shows "signature s n h = (\<lambda>e. (h e, e)) ` set s"
proof -
  have "length s = card (set s)" using assms(1) by (simp add: distinct_card)
  then have "int (length (sort (map (\<lambda>e. (h e, e)) s))) \<le> n" using assms(2) by simp
  then show ?thesis by (simp add: signature_def py_take_all)
qed

lemma inj_hash_pair: "inj (\<lambda>e. (h e, e))"
  by (simp add: inj_on_def)

lemma union_signature_pair_full:
  assumes "finite A" "int (card A) \<le> n"
  shows "set (py_take n (sorted_list_of_set A)) = A"
proof -
  have "int (length (sorted_list_of_set A)) \<le> n" using assms by simp
  then show ?thesis using assms(1) by (simp add: py_take_all)
qed

lemma minhash_of_full_signatures:
  fixes s t :: "'a::linorder list"
  assumes "distinct s" "distinct t" "int (card (set s \<union> set t)) \<le> n"
  shows "minhash (signature s n h) (signature t n h) n = jaccard s t"
proof -
  let ?P = "\<lambda>e. (h e, e)"
  have cs: "int (card (set s)) \<le> n"
    using assms(3) card_mono[of "set s \<union> set t" "set s"] by simp
  have ct: "int (card (set t)) \<le> n"
    using assms(3) card_mono[of "set s \<union> set t" "set t"] by simp
  have ss: "signature s n h = ?P ` set s" using signature_full[OF assms(1) cs] .
  have st: "signature t n h = ?P ` set t" using signature_full[OF assms(2) ct] .
  have un: "?P ` set s \<union> ?P ` set t = ?P ` (set s \<union> set t)" by (simp add: image_Un)
  have cu: "card (?P ` (set s \<union> set t)) = card (set s \<union> set t)"
    by (rule card_image) (simp add: inj_on_def)
  have X: "union_signature [?P ` set s, ?P ` set t] n = Inr (?P ` (set s \<union> set t))"
    using union_signature_pair_full[of "?P ` (set s \<union> set t)" n] cu assms(3)
    by (simp add: union_signature_def un)
  have Y: "intersection_signature [?P ` (set s \<union> set t), ?P ` set s, ?P ` set t]
           = Inr (?P ` (set s \<inter> set t))"
    by (auto simp: intersection_signature_def reduce_def)
  have ci: "card (?P ` (set s \<inter> set t)) = card (set s \<inter> set t)"
    by (rule card_image) (simp add: inj_on_def)
  show ?thesis
    by (simp add: ss st minhash_def jaccard_def X Y ci cu Let_def)
qed

lemma minhash_empty_union:
  assumes "union_signature [a, b] n = Inr {}"
  shows "minhash a b n = Inr 0"
  using assms
  by (simp add: minhash_def intersection_signature_def reduce_def zero_on_divide_by_zero_py_div)

text \<open>
  C7. For all finite sets \<open>S\<close> and \<open>T\<close> (iterated without repetition) whose union has at
  most \<open>n\<close> elements, \<open>minhash(signature(S, n), signature(T, n), n)\<close> equals
  \<open>jaccard(S, T)\<close>, whatever the hash function; and \<open>minhash\<close> returns 0 when the union
  signature is empty.
\<close>

theorem minhash_exact_when_untruncated:
  fixes s t :: "'a::linorder list" and a b :: "(int \<times> 'a) set"
  shows "(distinct s \<and> distinct t \<and> int (card (set s \<union> set t)) \<le> n
          \<longrightarrow> minhash (signature s n h) (signature t n h) n = jaccard s t)
       \<and> (union_signature [a, b] n = Inr {} \<longrightarrow> minhash a b n = Inr 0)"
  using minhash_of_full_signatures minhash_empty_union by blast

theorem minhash_exact_witness:
  "distinct [1, 2 :: int] \<and> distinct [2, 3 :: int]
   \<and> int (card (set [1, 2 :: int] \<union> set [2, 3])) \<le> 5
   \<and> minhash (signature [1, 2 :: int] 5 (\<lambda>x. x * 7 mod 5)) (signature [2, 3] 5 (\<lambda>x. x * 7 mod 5)) 5
       = jaccard [1, 2 :: int] [2, 3]
   \<and> jaccard [1, 2 :: int] [2, 3] = Inr (1 / 3)
   \<and> union_signature [{}, {} :: (int \<times> int) set] 5 = Inr {}
   \<and> minhash ({} :: (int \<times> int) set) {} 5 = Inr 0"
proof -
  have c: "int (card (set [1, 2 :: int] \<union> set [2, 3])) \<le> 5" by code_simp
  have u: "union_signature [{}, {} :: (int \<times> int) set] 5 = Inr {}"
    by (simp add: union_signature_def py_take_def)
  have j: "jaccard [1, 2 :: int] [2, 3] = Inr (1 / 3)"
    by code_simp
  show ?thesis
    using c u j
      minhash_exact_when_untruncated[of "[1, 2 :: int]" "[2, 3]" 5 "\<lambda>x. x * 7 mod 5" "{}" "{}"]
    by simp
qed

section \<open>Properties of Family.union and Family.overlap\<close>

lemma foldl_Un_set: "foldl (\<union>) a xs = a \<union> \<Union> (set xs)"
  by (induction xs arbitrary: a) auto

lemma range_eq_nonempty: "start r1 < stop r1 \<Longrightarrow> range_eq r1 r2 \<longleftrightarrow> r1 = r2"
  by (auto simp: range_eq_def len_range_def)

lemma foldl_set_add_range_id:
  "distinct (found @ rs) \<Longrightarrow> nonempty_ranges (found @ rs)
   \<Longrightarrow> foldl set_add_range found rs = found @ rs"
proof (induction rs arbitrary: found)
  case Nil
  then show ?case by simp
next
  case (Cons r rs)
  have "\<not> list_ex (\<lambda>x. range_eq x r) found"
    using Cons.prems by (auto simp: list_ex_iff nonempty_ranges_def list_all_iff range_eq_nonempty)
  then have "set_add_range found r = found @ [r]" by (simp add: set_add_range_def)
  then show ?case using Cons.IH[of "found @ [r]"] Cons.prems by simp
qed

lemma range_set_of_valid:
  assumes "distinct ts" "list_all (\<lambda>(s, e). s \<le> e) ts"
  shows "range_set_of ts = map (\<lambda>(s, e). Rng s (e + 1)) ts"
proof -
  have d: "distinct (map (\<lambda>(s, e). Rng s (e + 1)) ts)"
    using assms(1) by (auto simp: distinct_map inj_on_def)
  have n: "nonempty_ranges (map (\<lambda>(s, e). Rng s (e + 1)) ts)"
    using assms(2) by (auto simp: nonempty_ranges_def list_all_iff)
  show ?thesis
    unfolding range_set_of_def using foldl_set_add_range_id[of "[]"] d n by simp
qed

lemma merge_range_set_of_valid:
  assumes "distinct ts1" "distinct ts2" "set ts1 = set ts2" "list_all (\<lambda>(s, e). s \<le> e) ts1"
  shows "merge_ranges (range_set_of ts1) = merge_ranges (range_set_of ts2)"
proof -
  have v2: "list_all (\<lambda>(s, e). s \<le> e) ts2" using assms(3,4) by (simp add: list_all_iff)
  have "mset ts1 = mset ts2"
    using assms(1-3) by (simp add: set_eq_iff_mset_eq_distinct)
  then have "mset (map (\<lambda>(s, e). Rng s (e + 1)) ts1) = mset (map (\<lambda>(s, e). Rng s (e + 1)) ts2)"
    by simp
  then show ?thesis
    using range_set_of_valid[OF assms(1,4)] range_set_of_valid[OF assms(2) v2]
      merge_ranges_mset by simp
qed

lemma region_tuples_valid:
  "valid_family f \<Longrightarrow> (s, e) \<in> region_tuples f p \<Longrightarrow> s \<le> e"
  by (fastforce simp: valid_family_def region_tuples_def list_all_iff split: option.splits)

lemma finite_region_tuples: "finite (region_tuples f p)"
  by (simp add: region_tuples_def split: option.splits)

lemma Family_union_char:
  "Family_union it self others =
     (\<lambda>p. if p \<in> \<Union> (proteins ` set (self # others))
          then Some (merge_ranges (range_set_of (it (united_tuples (self # others) p))))
          else None)"
proof -
  have u: "foldl (\<union>) (region_tuples self p) (map (\<lambda>r. region_tuples r p) others)
           = united_tuples (self # others) p" for p
    by (simp add: foldl_Un_set united_tuples_def)
  have ps: "foldl (\<union>) (proteins self) (map proteins others)
            = \<Union> (proteins ` set (self # others))"
    by (simp add: foldl_Un_set)
  show ?thesis
    unfolding Family_union_def Let_def u ps ..
qed

lemma Family_union_order_free:
  assumes v: "\<forall>f\<in>set (a # as). valid_family f"
    and it: "set_iteration it1" "set_iteration it2"
    and same: "set (a # as) = set (b # bs)"
  shows "Family_union it1 a as = Family_union it2 b bs"
proof -
  have m: "merge_ranges (range_set_of (it1 (united_tuples (a # as) p)))
        = merge_ranges (range_set_of (it2 (united_tuples (b # bs) p)))" for p
  proof -
    let ?S = "united_tuples (a # as) p"
    have eq: "united_tuples (b # bs) p = ?S"
      unfolding united_tuples_def same ..
    have fin: "finite ?S"
      unfolding united_tuples_def using finite_region_tuples by blast
    have val: "\<forall>(s, e)\<in>?S. s \<le> e"
      unfolding united_tuples_def using v region_tuples_valid by blast
    have e1: "set (it1 ?S) = ?S" "distinct (it1 ?S)"
      using it(1) fin by (simp_all add: set_iteration_def)
    have e2: "set (it2 ?S) = ?S" "distinct (it2 ?S)"
      using it(2) fin by (simp_all add: set_iteration_def)
    have "list_all (\<lambda>(s, e). s \<le> e) (it1 ?S)"
      using val e1(1) by (simp add: list_all_iff)
    then show ?thesis
      unfolding eq using merge_range_set_of_valid[OF e1(2) e2(2)] e1(1) e2(1) by simp
  qed
  have ps: "\<Union> (proteins ` set (a # as)) = \<Union> (proteins ` set (b # bs))"
    unfolding same ..
  show ?thesis
    unfolding Family_union_char ps m ..
qed

lemma set_iteration_sorted: "set_iteration (sorted_list_of_set :: (int \<times> int) set \<Rightarrow> _)"
  by (simp add: set_iteration_def)

lemma set_iteration_from_first: "set_iteration iter_from_first"
  by (auto simp: set_iteration_def iter_from_first_def)

lemma set_iteration_from_third: "set_iteration iter_from_third"
  by (auto simp: set_iteration_def iter_from_third_def)

lemma empty_united:
  "foldl (\<union>) (region_tuples empty_f1 ''p'')
      (map (\<lambda>r. region_tuples r ''p'') [empty_f2, short_f3]) = {(0, - 1), (7, 6), (0, 3)}"
  "foldl (\<union>) (region_tuples short_f3 ''p'')
      (map (\<lambda>r. region_tuples r ''p'') [empty_f2, empty_f1]) = {(0, - 1), (7, 6), (0, 3)}"
  by (auto simp: region_tuples_def empty_f1_def empty_f2_def short_f3_def Family_init_def)

lemma rs1: "merge_ranges (range_set_of [(7, 6), (0, - 1), (0, 3)]) = [Rng 0 4, Rng 7 7]"
  by code_simp

lemma rs3: "merge_ranges (range_set_of [(0, 3), (0, - 1), (7, 6)]) = [Rng 0 4]"
  by code_simp

text \<open>
  C6 (as amended). For all Families \<open>A\<close>, \<open>B\<close>, \<open>C\<close> whose regions are valid coordinate
  ranges (\<open>start \<le> end\<close>), \<open>A.union(B, C) == B.union(A, C) == C.union(B, A)\<close> as mappings
  from protein to merged range list, in whatever order each of the three calls iterates
  its sets.
\<close>

theorem Family_union_commutative:
  assumes "valid_family A" "valid_family B" "valid_family C"
    and "set_iteration it1" "set_iteration it2" "set_iteration it3"
  shows "Family_union it1 A [B, C] = Family_union it2 B [A, C]
       \<and> Family_union it2 B [A, C] = Family_union it3 C [B, A]"
proof -
  have "Family_union it1 A [B, C] = Family_union it2 B [A, C]"
    by (rule Family_union_order_free) (use assms in auto)
  moreover have "Family_union it2 B [A, C] = Family_union it3 C [B, A]"
    by (rule Family_union_order_free) (use assms in auto)
  ultimately show ?thesis by simp
qed

theorem Family_union_commutative_witness:
  "valid_family test_f1 \<and> valid_family test_f2 \<and> valid_family test_f3
   \<and> set_iteration iter_from_first \<and> set_iteration iter_from_third
   \<and> set_iteration (sorted_list_of_set :: (int \<times> int) set \<Rightarrow> (int \<times> int) list)
   \<and> Family_union iter_from_first test_f1 [test_f2, test_f3]
       = Family_union sorted_list_of_set test_f2 [test_f1, test_f3]
   \<and> Family_union sorted_list_of_set test_f2 [test_f1, test_f3]
       = Family_union iter_from_third test_f3 [test_f2, test_f1]
   \<and> Family_union sorted_list_of_set test_f2 [test_f1, test_f3] ''a1'' = Some [Rng 5 51]
   \<and> Family_union sorted_list_of_set test_f2 [test_f1, test_f3] ''a2'' = Some [Rng 10 21]"
proof -
  have v: "valid_family test_f1" "valid_family test_f2" "valid_family test_f3"
    by (simp_all add: valid_family_def test_f1_def test_f2_def test_f3_def Family_init_def)
  have a1: "Family_union sorted_list_of_set test_f2 [test_f1, test_f3] ''a1'' = Some [Rng 5 51]"
    by (simp add: Family_union_def test_f1_def test_f2_def test_f3_def Family_init_def
        proteins_def region_tuples_def range_set_of_def set_add_range_def range_eq_def
        merge_ranges_def merge_step_def len_range_def overlap_def Let_def)
  have a2: "Family_union sorted_list_of_set test_f2 [test_f1, test_f3] ''a2'' = Some [Rng 10 21]"
    by (simp add: Family_union_def test_f1_def test_f2_def test_f3_def Family_init_def
        proteins_def region_tuples_def range_set_of_def set_add_range_def range_eq_def
        merge_ranges_def merge_step_def len_range_def overlap_def Let_def)
  show ?thesis
    using v a1 a2 set_iteration_from_first set_iteration_from_third set_iteration_sorted
      Family_union_commutative[OF v set_iteration_from_first set_iteration_sorted
        set_iteration_from_third]
    by simp
qed

text \<open>
  C6 as stated, for all Families, fails when regions end before they start. The three
  families hold \<open>(0, -1)\<close>, \<open>(7, 6)\<close> and \<open>(0, 3)\<close> on one protein. The two empty ranges are
  equal, so the set of ranges keeps the one met first. United from the first family on,
  \<open>range(7, 7)\<close> is kept and the union is \<open>[range(0, 4), range(7, 7)]\<close>; united from the
  third on, \<open>range(0, 0)\<close> is kept and joined with the adjacent \<open>range(0, 4)\<close>, and the
  union is \<open>[range(0, 4)]\<close>.
\<close>

theorem Family_union_empty_ranges_counterexample:
  "set_iteration iter_from_first \<and> set_iteration iter_from_third
   \<and> Family_union iter_from_first empty_f1 [empty_f2, short_f3] ''p'' = Some [Rng 0 4, Rng 7 7]
   \<and> Family_union iter_from_third short_f3 [empty_f2, empty_f1] ''p'' = Some [Rng 0 4]
   \<and> Family_union iter_from_first empty_f1 [empty_f2, short_f3]
       \<noteq> Family_union iter_from_third short_f3 [empty_f2, empty_f1]"
proof -
  have p1: "''p'' \<in> foldl (\<union>) (proteins empty_f1) (map proteins [empty_f2, short_f3])"
    and p3: "''p'' \<in> foldl (\<union>) (proteins short_f3) (map proteins [empty_f2, empty_f1])"
    by (simp_all add: proteins_def empty_f1_def short_f3_def Family_init_def)
  have a: "Family_union iter_from_first empty_f1 [empty_f2, short_f3] ''p''
           = Some [Rng 0 4, Rng 7 7]"
    unfolding Family_union_def Let_def empty_united using p1
    by (simp add: iter_from_first_def rs1)
  have c: "Family_union iter_from_third short_f3 [empty_f2, empty_f1] ''p'' = Some [Rng 0 4]"
    unfolding Family_union_def Let_def empty_united using p3
    by (simp add: iter_from_third_def rs3)
  have "Family_union iter_from_first empty_f1 [empty_f2, short_f3] ''p''
        \<noteq> Family_union iter_from_third short_f3 [empty_f2, empty_f1] ''p''"
    unfolding a c by simp
  then have "Family_union iter_from_first empty_f1 [empty_f2, short_f3]
        \<noteq> Family_union iter_from_third short_f3 [empty_f2, empty_f1]"
    by metis
  then show ?thesis
    using a c set_iteration_from_first set_iteration_from_third by simp
qed

lemma overlap_commute: "overlap s1 e1 s2 e2 = overlap s2 e2 s1 e1"
  by (simp add: overlap_def max.commute min.commute)

lemma pair_overlaps_commute: "pair_overlaps R1 R2 = pair_overlaps R2 R1"
  unfolding pair_overlaps_def using overlap_commute by blast

lemma pair_overlaps_Un_left:
  "pair_overlaps (A \<union> B) R = pair_overlaps A R \<union> pair_overlaps B R"
  unfolding pair_overlaps_def by blast

lemma pair_overlaps_Un_right:
  "pair_overlaps R (A \<union> B) = pair_overlaps R A \<union> pair_overlaps R B"
  unfolding pair_overlaps_def by blast

lemma pair_overlaps_single:
  "pair_overlaps {(s1, e1)} {(s2, e2)}
   = (if len_range (overlap s1 e1 s2 e2) \<noteq> 0 then {overlap s1 e1 s2 e2} else {})"
  unfolding pair_overlaps_def by auto

lemma overlap_past_end_empty: "e1 < s2 \<Longrightarrow> len_range (overlap s1 e1 s2 e2) = 0"
  by (simp add: len_range_def overlap_def)

lemma overlap_inner_set:
  "sorted (map fst r2) \<Longrightarrow>
   overlap_inner s1 e1 r2 found = found \<union> pair_overlaps {(s1, e1)} (set r2)"
proof (induction r2 arbitrary: found)
  case Nil
  then show ?case by (simp add: pair_overlaps_def)
next
  case (Cons x rest)
  obtain s2 e2 where x: "x = (s2, e2)" by (cases x)
  have srt: "sorted (map fst rest)" and le: "\<forall>y\<in>set rest. s2 \<le> fst y"
    using Cons.prems x by simp_all
  show ?case
  proof (cases "e1 < s2")
    case True
    have "len_range (overlap s1 e1 a b) = 0" if "(a, b) \<in> set (x # rest)" for a b
    proof -
      have "s2 \<le> a" using that le x by auto
      then show ?thesis using True overlap_past_end_empty by simp
    qed
    then have "pair_overlaps {(s1, e1)} (set (x # rest)) = {}"
      by (auto simp: pair_overlaps_def)
    then show ?thesis using True x by simp
  next
    case False
    have split: "pair_overlaps {(s1, e1)} (set (x # rest))
        = (if len_range (overlap s1 e1 s2 e2) \<noteq> 0 then {overlap s1 e1 s2 e2} else {})
          \<union> pair_overlaps {(s1, e1)} (set rest)"
      using pair_overlaps_Un_right[of "{(s1, e1)}" "{(s2, e2)}" "set rest"]
      by (simp add: x pair_overlaps_single)
    show ?thesis
      using False x Cons.IH[OF srt] split by (auto simp: Let_def)
  qed
qed

lemma overlap_outer_set:
  "sorted (map fst r2) \<Longrightarrow>
   overlap_outer r1 r2 found = found \<union> pair_overlaps (set r1) (set r2)"
proof (induction r1 arbitrary: found)
  case Nil
  then show ?case by (simp add: pair_overlaps_def)
next
  case (Cons x rest)
  obtain s1 e1 where x: "x = (s1, e1)" by (cases x)
  have split: "pair_overlaps (set (x # rest)) (set r2)
      = pair_overlaps {(s1, e1)} (set r2) \<union> pair_overlaps (set rest) (set r2)"
    using pair_overlaps_Un_left[of "{(s1, e1)}" "set rest" "set r2"] by (simp add: x)
  show ?case
    using Cons.IH[OF Cons.prems] overlap_inner_set[OF Cons.prems] x split by auto
qed

lemma sorted_fst_sort: "sorted (map fst (sort (r :: (int \<times> int) list)))"
proof -
  have "sorted xs \<Longrightarrow> sorted (map fst xs)" for xs :: "(int \<times> int) list"
    by (induction xs) (auto simp: less_eq_prod_def)
  then show ?thesis by simp
qed

lemma overlap_outer_sorted:
  "overlap_outer (sort r1) (sort r2) {} = pair_overlaps (set r1) (set r2)"
  using overlap_outer_set[OF sorted_fst_sort, of "sort r1" r2 "{}"] by simp

lemma protein_overlap_commute: "protein_overlap r1 r2 = protein_overlap r2 r1"
  by (simp add: protein_overlap_def pair_overlaps_commute)

lemma overlap_proteins_aligned:
  "overlap_proteins (map (\<lambda>k. ((k, g1 k), (k, g2 k))) ks) overlaps
   = Inr (\<lambda>p. if p \<in> set ks then Some (protein_overlap (g1 p) (g2 p)) else overlaps p)"
proof (induction ks arbitrary: overlaps)
  case Nil
  then show ?case by simp
next
  case (Cons k ks)
  show ?case
    by (simp add: Cons.IH overlap_outer_sorted protein_overlap_def fun_eq_iff)
qed

lemma dict_slice_zip:
  assumes "I = dom d1 \<inter> dom d2"
  shows "zip (dict_slice d1 I) (dict_slice d2 I)
         = map (\<lambda>k. ((k, the (d1 k)), (k, the (d2 k)))) (sorted_list_of_set I)"
proof -
  have a: "{k \<in> dom d1. k \<in> I} = I" and b: "{k \<in> dom d2. k \<in> I} = I"
    using assms by auto
  show ?thesis
    unfolding dict_slice_def a b by (simp add: zip_map_map zip_same_conv_map)
qed

lemma overlap_of_commute: "overlap_of f1 f2 = overlap_of f2 f1"
proof
  fix p
  have "protein_overlap (the (regions f1 p)) (the (regions f2 p))
        = protein_overlap (the (regions f2 p)) (the (regions f1 p))"
    by (rule protein_overlap_commute)
  then show "overlap_of f1 f2 p = overlap_of f2 f1 p"
    by (simp add: overlap_of_def Int_commute)
qed

lemma Family_overlap_char: "Family_overlap self other = Inr (overlap_of self other)"
proof -
  have "overlap_proteins
          (zip (dict_slice (regions f1) (proteins f1 \<inter> proteins f2))
               (dict_slice (regions f2) (proteins f1 \<inter> proteins f2))) Map.empty
        = Inr (overlap_of f1 f2)" for f1 f2
    using dict_slice_zip[of "proteins f1 \<inter> proteins f2" "regions f1" "regions f2"]
    by (simp add: proteins_def overlap_proteins_aligned overlap_of_def)
  then show ?thesis
    using overlap_of_commute[of self other]
    by (simp add: Family_overlap_def Let_def)
qed

text \<open>
  C10. \<open>Family.overlap\<close> is commutative: for all Families \<open>A\<close> and \<open>B\<close>,
  \<open>A.overlap(B) == B.overlap(A)\<close> as mappings from protein to merged range list, whichever
  family is iterated first and although the inner loop is left at the first region that
  starts past the current region's end. The assertion in the loop never fails.
\<close>

theorem Family_overlap_commutative:
  "Family_overlap A B = Family_overlap B A \<and> (\<exists>m. Family_overlap A B = Inr m)"
  by (simp add: Family_overlap_char overlap_of_commute[of A B])

text \<open>
  The scenario of the specification: regions \<open>(10, 20)\<close> and \<open>(15, 20), (30, 40)\<close> on the
  same protein overlap in \<open>range(15, 21)\<close>.
\<close>

theorem Family_overlap_commutative_witness:
  "Family_overlap test_f1 test_f2 = Family_overlap test_f2 test_f1
   \<and> Family_overlap test_f1 test_f2 = Inr [''a1'' \<mapsto> [Rng 15 21]]"
proof -
  have i: "proteins test_f1 \<inter> proteins test_f2 = {''a1''}"
    by (auto simp: proteins_def test_f1_def test_f2_def Family_init_def)
  have oo: "overlap_outer (sort [(10, 20)]) (sort [(15, 20), (30, 40)]) {} = {Rng 15 21}"
    by code_simp
  have po: "pair_overlaps {(10, 20)} {(15, 20), (30, 40)} = {Rng 15 21}"
    using overlap_outer_sorted[of "[(10, 20)]" "[(15, 20), (30, 40)]"] oo by simp
  have m: "merge_ranges (iter_set {Rng 15 21}) = [Rng 15 21]"
    by code_simp
  have v: "overlap_of test_f1 test_f2 = [''a1'' \<mapsto> [Rng 15 21]]"
    unfolding overlap_of_def i
    by (auto simp: protein_overlap_def fun_eq_iff test_f1_def test_f2_def Family_init_def po m)
  have c: "Family_overlap test_f1 test_f2 = Family_overlap test_f2 test_f1"
    using Family_overlap_commutative[of test_f1 test_f2] by blast
  show ?thesis
    using c v by (simp add: Family_overlap_char)
qed

section \<open>The memoised signature and full hash of a Family\<close>

text \<open>
  \<open>add_region\<close> resets \<open>_signatures\<close>, so the next \<open>signature\<close> is computed from the
  current regions; it leaves \<open>_fhashes\<close> as it was, so a memoised full hash is returned
  again.
\<close>

lemma add_region_signature_fresh:
  assumes "add_region f acc s e = Inr f'"
  shows "fst (Family_signature crc32_hash f' hashes) = Hashes_signature crc32_hash hashes f'"
  using assms
  by (auto simp: add_region_def Family_signature_def Let_def split: if_splits)

lemma add_region_keeps_fhashes:
  assumes "add_region f acc s e = Inr f'"
  shows "fhashes f' = fhashes f"
  using assms by (auto simp: add_region_def split: if_splits)

lemma Family_full_hash_cached:
  assumes "fhashes f (repo_ident hashes) = Some v"
  shows "fst (Family_full_hash crc32_hash f hashes) = v"
  using assms by (simp add: Family_full_hash_def)

text \<open>
  C8, at the failing input. A new Family is asked for its full hash (the empty set, now
  memoised), then the region \<open>(''P1'', 1, 10)\<close> is added. The next \<open>full_hash\<close> with the
  same repository returns the memoised empty set, not the hash set of the current
  proteins, \<open>{(crc32(''P1''), ''P1'')}\<close>; the next \<open>signature\<close> is freshly computed.
\<close>

theorem full_hash_stale_after_add_region:
  "case add_region (snd (Family_full_hash crc32_hash Family_init hashes)) ''P1'' 1 10 of
     Inr f \<Rightarrow> fst (Family_full_hash crc32_hash f hashes) = {}
              \<and> Hashes_full_hash crc32_hash hashes f = {(crc32_hash ''P1'', ''P1'')}
              \<and> fst (Family_signature crc32_hash f hashes) = Hashes_signature crc32_hash hashes f
   | Inl e \<Rightarrow> False"
  by (simp add: Family_full_hash_def Family_signature_def Hashes_full_hash_def Hashes_signature_def
      add_region_def Family_init_def proteins_list_def proteins_def set_hashes_def Let_def)

section \<open>Properties of the sifter pipeline\<close>

lemma foldl_conj: "foldl (\<and>) b bs \<longleftrightarrow> b \<and> list_all (\<lambda>x. x) bs"
  by (induction bs arbitrary: b) auto

lemma foldl_disj: "foldl (\<or>) b bs \<longleftrightarrow> b \<or> list_ex (\<lambda>x. x) bs"
  by (induction bs arbitrary: b) auto

lemma reduce_and:
  "bs \<noteq> [] \<Longrightarrow> reduce (\<and>) bs = Inr (list_all (\<lambda>x. x) bs)"
  by (cases bs) (simp_all add: reduce_def foldl_conj)

lemma reduce_or:
  "bs \<noteq> [] \<Longrightarrow> reduce (\<or>) bs = Inr (list_ex (\<lambda>x. x) bs)"
  by (cases bs) (simp_all add: reduce_def foldl_disj)

lemma Sifter_sift_package:
  "Sifter_sift self (fst (package search ident st)) (snd (package search ident st))
   = Inr (fst (package search ident st), st @ [[self]])"
  by (simp add: Sifter_sift_def package_def)

text \<open>
  The base method leaves the values of the packet as they are and appends the stage to
  the list the packet's \<open>SIFTS\<close> reference points to: the list the caller's packet shows
  afterwards is one entry longer.
\<close>

lemma Sifter_sift_appends:
  assumes "Sifter_sift self data st = Inr (out_data, st1)"
  shows "out_data = data
       \<and> (\<exists>l. audit_trail data st = Some l \<and> audit_trail data st1 = Some (l @ [self]))"
  using assms
  by (auto simp: Sifter_sift_def audit_trail_def Let_def
      split: option.splits pyval.splits if_splits)

text \<open>
  C9, at the failing input. A packet fresh from \<open>package\<close> has an empty audit trail. After
  \<open>Terminator.sift\<close> returns, the audit trail of that same packet, which the caller still
  holds, lists the terminator: the shallow copy shares the list with the input.
\<close>

theorem Sifter_sift_mutates_audit_trail:
  "audit_trail (fst (package Family_init ''query'' [])) (snd (package Family_init ''query'' []))
     = Some []
   \<and> (case Terminator_sift ''terminator'' Map.empty
             (fst (package Family_init ''query'' [])) (snd (package Family_init ''query'' [])) of
         Inr (results, st1) \<Rightarrow>
           audit_trail (fst (package Family_init ''query'' [])) st1 = Some [''terminator'']
       | Inl e \<Rightarrow> False)"
  by (simp add: Terminator_sift_def Sifter_sift_def package_def audit_trail_def)

text \<open>
  The routing of \<open>HashSifter.sift\<close> on a catalog with at least one entry: \<open>low_sink\<close> when
  every score is at most the low threshold; otherwise \<open>high_sink\<close> when some score reaches
  the high threshold and exactly one reaches the low threshold; otherwise \<open>other_sink\<close>.
\<close>

lemma HashSifter_sift_routes:
  assumes base: "Sifter_sift (hs_self self) data st = Inr (out_data, st1)"
    and search: "data SEARCH = Some (VFamily search)"
    and scores: "hs_sift_method self search (hs_hashes self) = scores" "scores \<noteq> []"
  shows "\<exists>pkt. HashSifter_sift self data st =
     Inr ([(if list_all (\<lambda>v. v \<le> hs_low_threshold self) (map snd scores) then ''low_sink''
            else if list_ex (\<lambda>v. v \<ge> hs_high_threshold self) (map snd scores)
                    \<and> length (filter (\<lambda>v. v \<ge> hs_low_threshold self) (map snd scores)) = 1
                 then ''high_sink'' else ''other_sink'', pkt)], st1)"
  using assms
  by (simp add: HashSifter_sift_def Let_def reduce_and reduce_or list_all_iff list_ex_iff)

lemma HashSifter_sift_all_zero:
  assumes base: "Sifter_sift (hs_self self) data st = Inr (out_data, st1)"
    and search: "data SEARCH = Some (VFamily search)"
    and scores: "hs_sift_method self search (hs_hashes self) = scores" "scores \<noteq> []"
    and zero: "list_all (\<lambda>v. v = 0) (map snd scores)" "0 \<le> hs_low_threshold self"
  shows "\<exists>pkt. HashSifter_sift self data st = Inr ([(''low_sink'', pkt)], st1)"
proof -
  have "list_all (\<lambda>v. v \<le> hs_low_threshold self) (map snd scores)"
    using zero by (auto simp: list_all_iff)
  then show ?thesis using HashSifter_sift_routes[OF base search scores] by simp
qed

text \<open>
  C2, at the failing input. On an empty catalog (the scoring method returns the empty
  dictionary) every score is at most the low threshold, but \<open>HashSifter.sift\<close> delivers to
  no sink: \<open>reduce\<close> without an initial value raises \<open>TypeError\<close> on the empty sequence.
\<close>

theorem HashSifter_sift_empty_catalog:
  "HashSifter_sift
     \<lparr>hs_self = ''hash'', hs_hashes = (), hs_sift_method = (\<lambda>search hashes. []),
      hs_low_threshold = 0, hs_high_threshold = 1\<rparr>
     (fst (package Family_init ''query'' [])) (snd (package Family_init ''query'' []))
   = Inl TypeError"
  by (simp add: HashSifter_sift_def Sifter_sift_package) (simp add: package_def reduce_def)

text \<open>
  \<open>ClanSifter.sift\<close> with one family above the threshold delivers to \<open>same_sink\<close> twice;
  with two families above the threshold that both have no clan it delivers to
  \<open>same_sink\<close>.
\<close>

lemma ClanSifter_sift_same_twice:
  "case ClanSifter_sift clan_for_family \<lparr>cs_self = ''clan'', cs_threshold = 1 / 2\<rparr>
      ((fst (package Family_init ''query'' []))(FAMILY_HASH_SCORES \<mapsto> VScores [(''PF1'', 1)]))
      (snd (package Family_init ''query'' [])) of
     Inr (ds, st1) \<Rightarrow> map fst ds = [''same_sink'', ''same_sink'']
   | Inl e \<Rightarrow> False"
  by (simp add: ClanSifter_sift_def Sifter_sift_def package_def)

lemma ClanSifter_sift_no_clan_same:
  "case ClanSifter_sift (\<lambda>f. None) \<lparr>cs_self = ''clan'', cs_threshold = 1 / 2\<rparr>
      ((fst (package Family_init ''query'' []))
         (FAMILY_HASH_SCORES \<mapsto> VScores [(''PF1'', 1), (''PF2'', 1)]))
      (snd (package Family_init ''query'' [])) of
     Inr (ds, st1) \<Rightarrow> map fst ds = [''same_sink'']
   | Inl e \<Rightarrow> False"
  by (simp add: ClanSifter_sift_def Sifter_sift_def package_def)

text \<open>
  C3, at the failing input. For a packet with no family above the threshold,
  \<open>ClanSifter.sift\<close> forwards the packet twice, whatever the clan lookup: first to
  \<open>same_sink\<close>, then to \<open>different_sink\<close>.
\<close>

theorem ClanSifter_sift_two_deliveries:
  "case ClanSifter_sift clan_for_family \<lparr>cs_self = ''clan'', cs_threshold = 1 / 2\<rparr>
      ((fst (package Family_init ''query'' []))(FAMILY_HASH_SCORES \<mapsto> VScores []))
      (snd (package Family_init ''query'' [])) of
     Inr (ds, st1) \<Rightarrow> map fst ds = [''same_sink'', ''different_sink'']
   | Inl e \<Rightarrow> False"
  by (simp add: ClanSifter_sift_def Sifter_sift_def package_def)

text \<open>
  Whenever \<open>SizeSifter.sift\<close> returns, it has delivered to \<open>bigger_sink\<close>: \<open>bigger\<close> starts
  as \<open>True\<close> and \<open>bigger |= False\<close> leaves it so.
\<close>

lemma SizeSifter_sift_always_bigger:
  assumes "SizeSifter_sift self data st = Inr (ds, st1)"
  shows "map fst ds = [''bigger_sink'']"
  using assms
  by (auto simp: SizeSifter_sift_def Let_def
       split: sum.splits option.splits pyval.splits if_splits prod.splits)

text \<open>
  C4, at the failing input. The matched entry has absolute size 5, below the absolute
  threshold 10, and \<open>SizeSifter.sift\<close> routes the packet to \<open>bigger_sink\<close>.
\<close>

theorem SizeSifter_sift_small_entry_to_bigger_sink:
  "case SizeSifter_sift
      \<lparr>ss_self = ''size'', ss_sizes = [(''PF1'', 5)], ss_size_method = (\<lambda>f. 3),
       ss_abs_threshold = Some 10, ss_rel_threshold = None\<rparr>
      ((fst (package Family_init ''query'' []))(FAMILY_HASH_SCORES \<mapsto> VScores [(''PF1'', 1 / 2)]))
      (snd (package Family_init ''query'' [])) of
     Inr (ds, st1) \<Rightarrow> map fst ds = [''bigger_sink'']
   | Inl e \<Rightarrow> False"
  by (simp add: SizeSifter_sift_def Sifter_sift_def package_def)

end
